theory Spec2Isabelle
  imports Main "HOL-Library.Sublist" "HOL-Library.AList"
begin

section \<open>FlowForge: Draw.io to Mermaid conversion\<close>

text \<open>
  A shallow embedding of \<^verbatim>\<open>flowforge/flowforge.py\<close> (the hardened converter) together
  with the style parser it shares with \<^verbatim>\<open>flowforge.py\<close>.

  Conventions of the embedding.
  \<^item> A Python \<^verbatim>\<open>str\<close> is a \<^typ>\<open>string\<close>; one \<^typ>\<open>char\<close> stands for one code point
    below 256.
  \<^item> A Python \<^verbatim>\<open>dict\<close> is an association list with unique keys kept in insertion
    order: \<^verbatim>\<open>d[k] = v\<close> is \<^const>\<open>AList.update\<close> (an existing key keeps its place),
    \<^verbatim>\<open>d.get(k)\<close> is \<^const>\<open>map_of\<close>.
  \<^item> An attribute that may be absent (\<^verbatim>\<open>cell.get("id")\<close> returning \<^verbatim>\<open>None\<close>) is an
    \<^typ>\<open>string option\<close>.
  \<^item> A raised exception is the left injection of a sum; a caught one is a branch.
  \<^item> Logging is observational only and is left out.
\<close>

subsection \<open>String operations of the Python runtime\<close>

text \<open>\<^verbatim>\<open>sub in s\<close> on strings.\<close>

fun contains :: "string \<Rightarrow> string \<Rightarrow> bool" where
  "contains sub [] = (sub = [])"
| "contains sub (c # cs) = (prefix sub (c # cs) \<or> contains sub cs)"

text \<open>The code points below 256 for which \<^verbatim>\<open>str.isspace\<close> holds.\<close>

definition whitespace :: "char list" where
  "whitespace = [CHR 0x09, CHR 0x0A, CHR 0x0B, CHR 0x0C, CHR 0x0D,
                 CHR 0x1C, CHR 0x1D, CHR 0x1E, CHR 0x1F, CHR 0x20, CHR 0x85, CHR 0xA0]"

definition is_space :: "char \<Rightarrow> bool" where
  "is_space c = (c \<in> set whitespace)"

text \<open>\<^verbatim>\<open>s.strip()\<close>.\<close>

definition strip :: "string \<Rightarrow> string" where
  "strip s = rev (dropWhile is_space (rev (dropWhile is_space s)))"

text \<open>\<^verbatim>\<open>s.lower()\<close>: the cased code points below 256.\<close>

definition upper_chars :: "char list" where
  "upper_chars = ''ABCDEFGHIJKLMNOPQRSTUVWXYZ'' @
     [CHR 0xC0, CHR 0xC1, CHR 0xC2, CHR 0xC3, CHR 0xC4, CHR 0xC5, CHR 0xC6, CHR 0xC7,
      CHR 0xC8, CHR 0xC9, CHR 0xCA, CHR 0xCB, CHR 0xCC, CHR 0xCD, CHR 0xCE, CHR 0xCF,
      CHR 0xD0, CHR 0xD1, CHR 0xD2, CHR 0xD3, CHR 0xD4, CHR 0xD5, CHR 0xD6,
      CHR 0xD8, CHR 0xD9, CHR 0xDA, CHR 0xDB, CHR 0xDC, CHR 0xDD, CHR 0xDE]"

definition lower_chars :: "char list" where
  "lower_chars = ''abcdefghijklmnopqrstuvwxyz'' @
     [CHR 0xE0, CHR 0xE1, CHR 0xE2, CHR 0xE3, CHR 0xE4, CHR 0xE5, CHR 0xE6, CHR 0xE7,
      CHR 0xE8, CHR 0xE9, CHR 0xEA, CHR 0xEB, CHR 0xEC, CHR 0xED, CHR 0xEE, CHR 0xEF,
      CHR 0xF0, CHR 0xF1, CHR 0xF2, CHR 0xF3, CHR 0xF4, CHR 0xF5, CHR 0xF6,
      CHR 0xF8, CHR 0xF9, CHR 0xFA, CHR 0xFB, CHR 0xFC, CHR 0xFD, CHR 0xFE]"

definition lower_char :: "char \<Rightarrow> char" where
  "lower_char c = (case map_of (zip upper_chars lower_chars) c of Some l \<Rightarrow> l | None \<Rightarrow> c)"

definition lower :: "string \<Rightarrow> string" where
  "lower s = map lower_char s"

text \<open>\<^verbatim>\<open>s.split(sep)\<close> for a one-character separator: never an empty list.\<close>

fun split_on :: "char \<Rightarrow> string \<Rightarrow> string list" where
  "split_on sep [] = [[]]"
| "split_on sep (c # cs) =
     (if c = sep then [] # split_on sep cs
      else (case split_on sep cs of [] \<Rightarrow> [[c]] | t # ts \<Rightarrow> (c # t) # ts))"

text \<open>
  \<^verbatim>\<open>s.replace(old, new)\<close> for a non-empty pattern: occurrences are replaced from the
  left and do not overlap. Both call sites pass a constant, non-empty pattern.
\<close>

function replace :: "string \<Rightarrow> string \<Rightarrow> string \<Rightarrow> string" where
  "replace old new s =
     (if old = [] \<or> s = [] then s
      else if prefix old s then new @ replace old new (drop (length old) s)
      else hd s # replace old new (tl s))"
  by pat_completeness auto
termination
  by (relation "measure (\<lambda>(old, new, s). length s)") auto

declare replace.simps [simp del]

text \<open>\<^verbatim>\<open>sep.join(lines)\<close>.\<close>

fun join :: "string \<Rightarrow> string list \<Rightarrow> string" where
  "join sep [] = []"
| "join sep [l] = l"
| "join sep (l # m # ls) = l @ sep @ join sep (m # ls)"

subsection \<open>Style strings\<close>

text \<open>A style value is the text after the first \<^verbatim>\<open>=\<close>, or \<^verbatim>\<open>True\<close> for a bare flag.\<close>

datatype style_val = SStr string | SFlag

type_synonym style_dict = "(string \<times> style_val) list"

text \<open>\<^verbatim>\<open>key, value = token.split('=', 1)\<close> on a token that contains \<^verbatim>\<open>=\<close>.\<close>

definition token_key :: "string \<Rightarrow> string" where
  "token_key token = takeWhile (\<lambda>c. c \<noteq> CHR ''='') token"

definition token_value :: "string \<Rightarrow> string" where
  "token_value token = tl (dropWhile (\<lambda>c. c \<noteq> CHR ''='') token)"

text \<open>The body of the loop over the tokens.\<close>

definition style_token :: "string \<Rightarrow> style_dict \<Rightarrow> style_dict" where
  "style_token token style_dict =
     (if CHR ''='' \<in> set token
      then AList.update (token_key token) (SStr (token_value token)) style_dict
      else if token \<noteq> [] then AList.update token SFlag style_dict
      else style_dict)"

definition parse_style :: "string \<Rightarrow> style_dict" where
  "parse_style style_str =
     (if style_str \<noteq> [] then fold style_token (split_on (CHR '';'') style_str) [] else [])"

subsection \<open>Element trees\<close>

text \<open>
  What \<^verbatim>\<open>xml.etree.ElementTree\<close> hands to the converter: an element has a tag, an
  attribute dictionary, an optional text and its direct children.
\<close>

datatype xml =
  Elem (tag: string) (attrib: "(string \<times> string) list") (elem_text: "string option")
    (subelems: "xml list")

text \<open>\<^verbatim>\<open>e.get(k)\<close>, \<^verbatim>\<open>e.find(t)\<close> and \<^verbatim>\<open>e.findall(t)\<close> for a plain tag name.\<close>

definition xml_get :: "xml \<Rightarrow> string \<Rightarrow> string option" where
  "xml_get e k = map_of (attrib e) k"

definition xml_find :: "xml \<Rightarrow> string \<Rightarrow> xml option" where
  "xml_find e t = find (\<lambda>c. tag c = t) (subelems e)"

definition xml_findall :: "xml \<Rightarrow> string \<Rightarrow> xml list" where
  "xml_findall e t = filter (\<lambda>c. tag c = t) (subelems e)"

text \<open>\<^verbatim>\<open>x or ""\<close> for an optional string.\<close>

definition or_empty :: "string option \<Rightarrow> string" where
  "or_empty x = (case x of None \<Rightarrow> [] | Some v \<Rightarrow> v)"

subsection \<open>The diagram model\<close>

type_synonym ident = "string option"

text \<open>How an f-string renders an identifier: \<^verbatim>\<open>None\<close> prints as its name.\<close>

definition py_str :: "ident \<Rightarrow> string" where
  "py_str i = (case i of None \<Rightarrow> ''None'' | Some v \<Rightarrow> v)"

record node =
  node_id :: ident
  node_label :: string
  node_style :: string
  node_style_dict :: style_dict
  node_geometry :: "(string \<times> string) list"
  node_parent :: ident

record edge =
  edge_id :: ident
  edge_source :: ident
  edge_target :: ident
  edge_label :: string
  edge_style :: string
  edge_style_dict :: style_dict

record group =
  group_label :: string
  group_children :: "node list"

type_synonym group_index = "(ident \<times> group) list"

type_synonym node_index = "(ident \<times> node) list"

record diagram =
  nodes :: "node list"
  edges :: "edge list"
  groups :: group_index

datatype error =
  DiagramDecompressionError | DiagramParsingError | IndexError
  | TypeError | AttributeError | RecursionError

subsection \<open>Formatting one node and one edge\<close>

text \<open>
  \<^verbatim>\<open>style.get("shape", "").lower()\<close>: a bare \<^verbatim>\<open>shape\<close> flag is stored as \<^verbatim>\<open>True\<close>, which
  has no \<^verbatim>\<open>lower\<close> method.
\<close>

definition style_shape :: "style_dict \<Rightarrow> error + string" where
  "style_shape style =
     (case map_of style ''shape'' of
        None \<Rightarrow> Inr []
      | Some (SStr v) \<Rightarrow> Inr (lower v)
      | Some SFlag \<Rightarrow> Inl AttributeError)"

text \<open>
  \<^verbatim>\<open>_format_node\<close>. The label is computed first; \<^verbatim>\<open>"N" + node["id"]\<close> raises
  \<^verbatim>\<open>TypeError\<close> when the cell had no id.
\<close>

definition format_node :: "node \<Rightarrow> error + string" where
  \<open>format_node node =
     (let label = (if node_label node \<noteq> [] then strip (node_label node)
                   else ''Node_'' @ py_str (node_id node));
          style = node_style_dict node
      in case node_id node of
           None \<Rightarrow> Inl TypeError
         | Some i \<Rightarrow>
             (let nid = ''N'' @ i
              in case style_shape style of
                   Inl e \<Rightarrow> Inl e
                 | Inr shape \<Rightarrow>
                     Inr (if shape = ''rhombus'' then nid @ ''{"'' @ label @ ''"}''
                          else if shape = ''ellipse'' \<or> map_of style ''ellipse'' \<noteq> None
                          then nid @ ''(( "'' @ label @ ''" ))''
                          else if map_of style ''rounded'' = Some (SStr ''1'') \<or> shape = ''stadium''
                          then nid @ ''("'' @ label @ ''")''
                          else nid @ ''["'' @ label @ ''"]'')))\<close>

text \<open>Python truthiness of \<^verbatim>\<open>style.get(k)\<close>.\<close>

definition truthy :: "style_val option \<Rightarrow> bool" where
  "truthy v = (case v of None \<Rightarrow> False | Some SFlag \<Rightarrow> True | Some (SStr t) \<Rightarrow> t \<noteq> [])"

text \<open>\<^verbatim>\<open>_format_edge\<close>.\<close>

definition format_edge :: "edge \<Rightarrow> error + string" where
  \<open>format_edge edge =
     (case edge_source edge of
        None \<Rightarrow> Inl TypeError
      | Some s \<Rightarrow>
          (case edge_target edge of
             None \<Rightarrow> Inl TypeError
           | Some t \<Rightarrow>
               (let src = ''N'' @ s;
                    tgt = ''N'' @ t;
                    label = strip (edge_label edge);
                    style = edge_style_dict edge;
                    arrow = ''-->'';
                    arrow = (if truthy (map_of style ''dashed'')
                                \<or> map_of style ''dashed'' = Some (SStr ''1'')
                             then ''-.->'' else arrow);
                    arrow = (if map_of style ''endArrow'' = Some (SStr ''none'')
                             then replace ''->'' ''-'' arrow else arrow)
                in Inr (if label \<noteq> []
                        then src @ '' -- "'' @ label @ ''" '' @ arrow @ '' '' @ tgt
                        else src @ '' '' @ arrow @ '' '' @ tgt))))\<close>

subsection \<open>Emitting subgraphs\<close>

text \<open>
  The loop over the children of a group. \<open>nested\<close> stands for the recursive call of
  \<^verbatim>\<open>_emit_subgraph_recursive\<close> on a child that is itself a registered group; an
  exception raised there leaves the loop, one raised by \<^verbatim>\<open>_format_node\<close> is caught
  and the child is skipped.
\<close>

fun emit_members ::
  "(ident \<Rightarrow> group \<Rightarrow> error + string list) \<Rightarrow> group_index \<Rightarrow> string \<Rightarrow> node list
    \<Rightarrow> error + string list" where
  "emit_members nested gs indent [] = Inr []"
| "emit_members nested gs indent (child # rest) =
     (let child_id = node_id child
      in case map_of gs child_id of
           Some nested_group \<Rightarrow>
             (case nested child_id nested_group of
                Inl e \<Rightarrow> Inl e
              | Inr ls \<Rightarrow>
                  (case emit_members nested gs indent rest of
                     Inl e \<Rightarrow> Inl e
                   | Inr others \<Rightarrow> Inr (ls @ others)))
         | None \<Rightarrow>
             (case format_node child of
                Inr node_def \<Rightarrow>
                  (case emit_members nested gs indent rest of
                     Inl e \<Rightarrow> Inl e
                   | Inr others \<Rightarrow> Inr ((indent @ ''    '' @ node_def) # others))
              | Inl e \<Rightarrow> emit_members nested gs indent rest))"

text \<open>
  \<^verbatim>\<open>_emit_subgraph_recursive\<close>. The source recurses with no visited set and no depth
  check of its own; the interpreter bounds the stack and raises \<^verbatim>\<open>RecursionError\<close>.
  The first argument is the number of nested activations the stack still admits
  (frames of the helper calls are not counted). \<open>gs\<close> is \<^verbatim>\<open>self.diagram["groups"]\<close>.
\<close>

primrec emit_subgraph_recursive ::
  "nat \<Rightarrow> group_index \<Rightarrow> ident \<Rightarrow> group \<Rightarrow> nat \<Rightarrow> error + string list" where
  "emit_subgraph_recursive 0 gs group_id grp indent_level = Inl RecursionError"
| "emit_subgraph_recursive (Suc depth) gs group_id grp indent_level =
     (let indent = concat (replicate indent_level ''    '')
      in case emit_members
                (\<lambda>child_id nested_group.
                    emit_subgraph_recursive depth gs child_id nested_group (indent_level + 1))
                gs indent (group_children grp) of
           Inl e \<Rightarrow> Inl e
         | Inr body \<Rightarrow>
             Inr ([indent @ ''subgraph '' @ py_str group_id @ ''['' @ group_label grp @ '']'']
                  @ body @ [indent @ ''end'']))"

subsection \<open>Emitting the flowchart\<close>

text \<open>
  The loop over \<^verbatim>\<open>diagram["groups"].items()\<close>: a group whose emission raised adds
  neither lines nor emitted ids (the exception is caught and logged).
\<close>

fun emit_groups ::
  "nat \<Rightarrow> group_index \<Rightarrow> group_index \<Rightarrow> string list \<times> ident set
    \<Rightarrow> string list \<times> ident set" where
  "emit_groups depth gs [] (lines, nodes_emitted) = (lines, nodes_emitted)"
| "emit_groups depth gs ((group_id, grp) # rest) (lines, nodes_emitted) =
     (case emit_subgraph_recursive depth gs group_id grp 0 of
        Inr group_lines \<Rightarrow>
          emit_groups depth gs rest
            (lines @ group_lines, nodes_emitted \<union> node_id ` set (group_children grp))
      | Inl e \<Rightarrow> emit_groups depth gs rest (lines, nodes_emitted))"

text \<open>The pass over the nodes that no group has emitted.\<close>

definition emit_nodes :: "ident set \<Rightarrow> node list \<Rightarrow> string list" where
  "emit_nodes nodes_emitted ns =
     concat (map (\<lambda>node.
        if node_id node \<notin> nodes_emitted
        then (case format_node node of Inr node_def \<Rightarrow> [node_def] | Inl e \<Rightarrow> [])
        else []) ns)"

text \<open>The pass over the edges; \<open>node_map\<close> is \<^verbatim>\<open>self.node_map\<close>.\<close>

definition emit_edges :: "node_index \<Rightarrow> edge list \<Rightarrow> string list" where
  "emit_edges node_map es =
     concat (map (\<lambda>edge.
        if map_of node_map (edge_source edge) = None \<or> map_of node_map (edge_target edge) = None
        then []
        else (case format_edge edge of Inr edge_def \<Rightarrow> [edge_def] | Inl e \<Rightarrow> [])) es)"

text \<open>
  \<^verbatim>\<open>_emit_mermaid\<close>. Its only caller passes \<^verbatim>\<open>self.diagram\<close>, so the group index the
  recursion consults is the one of the diagram.
\<close>

definition emit_mermaid :: "nat \<Rightarrow> node_index \<Rightarrow> diagram \<Rightarrow> string \<Rightarrow> string \<Rightarrow> string" where
  "emit_mermaid depth node_map d direction diagram_type =
     (let lines = (if diagram_type = ''flowchart'' then [''flowchart '' @ direction]
                   else [''flowchart '' @ direction]);
          (lines, nodes_emitted) = emit_groups depth (groups d) (groups d) (lines, {});
          lines = lines @ emit_nodes nodes_emitted (nodes d);
          lines = lines @ emit_edges node_map (edges d)
      in join ''\<newline>'' lines)"

subsection \<open>Library calls\<close>

text \<open>
  The converter calls into \<^verbatim>\<open>xml.etree.ElementTree\<close>, \<^verbatim>\<open>urllib\<close>, \<^verbatim>\<open>base64\<close>, \<^verbatim>\<open>zlib\<close> and
  \<^verbatim>\<open>gzip\<close>. They are parameters of the model:
  \<^item> \<open>et_fromstring\<close> is \<^verbatim>\<open>ET.fromstring\<close>, with \<open>None\<close> for \<^verbatim>\<open>ET.ParseError\<close>;
  \<^item> \<open>decode_payload strict d\<close> is the chain of decoding attempts on one stripped,
    non-empty fragment that is not literal XML (URL decoding, base64, the inflate
    variants, gzip, the last resort of the relaxed mode): a page, a skip, or the
    \<^verbatim>\<open>DiagramDecompressionError\<close> of the strict mode.
\<close>

record library =
  et_fromstring :: "string \<Rightarrow> xml option"
  decode_payload :: "bool \<Rightarrow> string \<Rightarrow> error + string option"

text \<open>The text before and after the first occurrence of a pattern.\<close>

fun split_at_first :: "string \<Rightarrow> string \<Rightarrow> (string \<times> string) option" where
  "split_at_first pat [] = (if pat = [] then Some ([], []) else None)"
| "split_at_first pat (c # cs) =
     (if prefix pat (c # cs) then Some ([], drop (length pat) (c # cs))
      else (case split_at_first pat cs of
              None \<Rightarrow> None
            | Some (before, after) \<Rightarrow> Some (c # before, after)))"

text \<open>
  \<^verbatim>\<open>re.findall(r"<diagram[^>]*>(.*?)</diagram>", xml_data, re.DOTALL)\<close>: the scan moves
  from left to right; after \<^verbatim>\<open><diagram\<close> the tag ends at the next \<^verbatim>\<open>>\<close>, the group is
  the text up to the next \<^verbatim>\<open></diagram>\<close>, and the scan resumes behind the match.
\<close>

function findall_diagram :: "string \<Rightarrow> string list" where
  "findall_diagram s =
     (if s = [] then []
      else if prefix ''<diagram'' s
      then (case dropWhile (\<lambda>c. c \<noteq> CHR ''>'') (drop 8 s) of
              [] \<Rightarrow> findall_diagram (tl s)
            | gt # body \<Rightarrow>
                (case split_at_first ''</diagram>'' body of
                   None \<Rightarrow> findall_diagram (tl s)
                 | Some (content, rest) \<Rightarrow> content # findall_diagram rest))
      else findall_diagram (tl s))"
  by pat_completeness auto
termination
proof (relation "measure length")
  have len: "split_at_first pat s = Some (before, after) \<Longrightarrow> length after \<le> length s"
    for pat s before after
    by (induction s arbitrary: before) (auto split: if_splits option.splits)
  fix s :: string and gt body x2 content rest
  assume "s \<noteq> []"
    and dw: "dropWhile (\<lambda>c. c \<noteq> CHR ''>'') (drop 8 s) = gt # body"
    and sp: "split_at_first ''</diagram>'' body = Some x2" "(content, rest) = x2"
  have "length rest \<le> length body"
    using sp len [of "''</diagram>''" body content rest] by simp
  moreover have "length (gt # body) \<le> length (drop 8 s)"
    using dw length_dropWhile_le [of "\<lambda>c. c \<noteq> CHR ''>''" "drop 8 s"] by simp
  ultimately have "length rest < length s" by simp
  then show "(rest, s) \<in> measure length" by simp
qed auto

declare findall_diagram.simps [simp del]

subsection \<open>Page extraction\<close>

text \<open>The loop over the fragments found, appending to \<^verbatim>\<open>self.diagram_pages\<close>.\<close>

fun decode_diagrams :: "library \<Rightarrow> bool \<Rightarrow> string list \<Rightarrow> string list \<Rightarrow> error + string list" where
  "decode_diagrams lib strict_mode [] diagram_pages = Inr diagram_pages"
| "decode_diagrams lib strict_mode (d0 # rest) diagram_pages =
     (let d = strip d0
      in if d = [] then decode_diagrams lib strict_mode rest diagram_pages
         else if prefix ''<'' d \<and> contains ''<mxGraphModel'' d
         then decode_diagrams lib strict_mode rest (diagram_pages @ [d])
         else (case decode_payload lib strict_mode d of
                 Inl e \<Rightarrow> Inl e
               | Inr None \<Rightarrow> decode_diagrams lib strict_mode rest diagram_pages
               | Inr (Some page) \<Rightarrow> decode_diagrams lib strict_mode rest (diagram_pages @ [page])))"

text \<open>The fallback when the pattern finds nothing: the children of an \<^verbatim>\<open>mxfile\<close> root.\<close>

definition mxfile_diagrams :: "library \<Rightarrow> string \<Rightarrow> string list" where
  "mxfile_diagrams lib xml_data =
     (case et_fromstring lib xml_data of
        None \<Rightarrow> []
      | Some root \<Rightarrow>
          if tag root = ''mxfile''
          then map (\<lambda>diagram. or_empty (elem_text diagram)) (xml_findall root ''diagram'')
          else [])"

text \<open>
  \<^verbatim>\<open>_decompress_data\<close>: takes \<^verbatim>\<open>self.diagram_pages\<close> and returns it extended, or the
  exception raised.
\<close>

definition decompress_data :: "library \<Rightarrow> bool \<Rightarrow> string list \<Rightarrow> string \<Rightarrow> error + string list" where
  "decompress_data lib strict_mode diagram_pages xml_data =
     (if contains ''<mxGraphModel'' xml_data then Inr (diagram_pages @ [xml_data])
      else
        (let diagrams = findall_diagram xml_data;
             diagrams = (if diagrams = [] then mxfile_diagrams lib xml_data else diagrams)
         in if diagrams \<noteq> [] then decode_diagrams lib strict_mode diagrams diagram_pages
            else if contains ''<mxGraphModel'' xml_data then Inr (diagram_pages @ [xml_data])
            else if strict_mode then Inl DiagramDecompressionError
            else Inr diagram_pages))"

text \<open>\<^verbatim>\<open>list_diagram_pages\<close>: the pages are cleared first; the result is the index list.\<close>

definition list_diagram_pages :: "library \<Rightarrow> bool \<Rightarrow> string \<Rightarrow> error + nat list" where
  "list_diagram_pages lib strict_mode xml_data =
     (case decompress_data lib strict_mode [] xml_data of
        Inl e \<Rightarrow> Inl e
      | Inr diagram_pages \<Rightarrow> Inr [0 ..< length diagram_pages])"

subsection \<open>Parsing a page\<close>

text \<open>The clean-up of the text before it is parsed.\<close>

definition normalize_xml :: "string \<Rightarrow> string" where
  \<open>normalize_xml xml_data0 =
     (let xml_data = replace ''&nbsp;'' ''&#160;'' xml_data0;
          xml_data = (if \<not> prefix ''<?xml'' (strip xml_data) \<and> contains ''<mxGraphModel'' xml_data
                      then ''<?xml version="1.0" encoding="UTF-8"?>\<newline>'' @ xml_data
                      else xml_data);
          xml_data = (if prefix ''<mxGraphModel'' (strip xml_data)
                         \<and> \<not> prefix ''<diagram'' (strip xml_data)
                      then ''<diagram>'' @ xml_data @ ''</diagram>''
                      else xml_data)
      in xml_data)\<close>

text \<open>The descent from the parsed root to the graph model.\<close>

definition model_root :: "xml \<Rightarrow> xml" where
  "model_root root =
     (if tag root = ''diagram''
      then (case xml_find root ''mxGraphModel'' of Some child \<Rightarrow> child | None \<Rightarrow> root)
      else if tag root = ''mxfile''
      then (case xml_find root ''diagram'' of
              None \<Rightarrow> root
            | Some diagram \<Rightarrow>
                (case xml_find diagram ''mxGraphModel'' of Some mx_model \<Rightarrow> mx_model | None \<Rightarrow> root))
      else root)"

text \<open>
  \<^verbatim>\<open>_parse_xml\<close>: a parse error is raised as \<^verbatim>\<open>DiagramParsingError\<close> in strict mode and
  answered with \<^verbatim>\<open>None\<close> otherwise.
\<close>

definition parse_xml :: "library \<Rightarrow> bool \<Rightarrow> string \<Rightarrow> error + xml option" where
  "parse_xml lib strict_mode xml_data =
     (case et_fromstring lib (normalize_xml xml_data) of
        None \<Rightarrow> if strict_mode then Inl DiagramParsingError else Inr None
      | Some root \<Rightarrow> Inr (Some (model_root root)))"

subsection \<open>Building the model\<close>

text \<open>One \<^verbatim>\<open>mxCell\<close>: a node, an edge, or nothing.\<close>

definition build_cell :: "xml \<Rightarrow> node_index \<times> diagram \<Rightarrow> node_index \<times> diagram" where
  "build_cell cell st =
     (let node_map = fst st; d = snd st; cell_id = xml_get cell ''id''
      in if cell_id = Some ''0'' \<or> cell_id = Some ''1'' then (node_map, d)
         else if xml_get cell ''vertex'' = Some ''1'' then
           (let label = or_empty (xml_get cell ''value'');
                style = or_empty (xml_get cell ''style'');
                geometry = xml_find cell ''mxGeometry'';
                node = \<lparr>node_id = cell_id, node_label = label, node_style = style,
                        node_style_dict = parse_style style,
                        node_geometry = (case geometry of Some g \<Rightarrow> attrib g | None \<Rightarrow> []),
                        node_parent = xml_get cell ''parent''\<rparr>
            in (AList.update cell_id node node_map, d\<lparr>nodes := nodes d @ [node]\<rparr>))
         else if xml_get cell ''edge'' = Some ''1'' then
           (let edge = \<lparr>edge_id = cell_id, edge_source = xml_get cell ''source'',
                        edge_target = xml_get cell ''target'',
                        edge_label = or_empty (xml_get cell ''value''),
                        edge_style = or_empty (xml_get cell ''style''),
                        edge_style_dict = parse_style (or_empty (xml_get cell ''style''))\<rparr>
            in (node_map, d\<lparr>edges := edges d @ [edge]\<rparr>))
         else (node_map, d))"

text \<open>
  The group pass for one node: its parent must be a non-empty id of the node index
  whose raw style mentions \<^verbatim>\<open>group\<close> or \<^verbatim>\<open>swimlane\<close>.
\<close>

definition group_node :: "node_index \<Rightarrow> node \<Rightarrow> group_index \<Rightarrow> group_index" where
  "group_node node_map node gs =
     (let parent = node_parent node
      in if parent \<noteq> None \<and> parent \<noteq> Some []
         then (case map_of node_map parent of
                 None \<Rightarrow> gs
               | Some parent_node \<Rightarrow>
                   (let parent_style = node_style parent_node
                    in if contains ''group'' parent_style \<or> contains ''swimlane'' parent_style
                       then (let gs1 = (if map_of gs parent = None
                                        then AList.update parent
                                               \<lparr>group_label =
                                                   (if node_label parent_node \<noteq> []
                                                    then node_label parent_node
                                                    else ''Group_'' @ py_str parent),
                                                group_children = []\<rparr> gs
                                        else gs)
                             in case map_of gs1 parent of
                                  None \<Rightarrow> gs1
                                | Some grp \<Rightarrow>
                                    AList.update parent
                                      (grp\<lparr>group_children := group_children grp @ [node]\<rparr>) gs1)
                       else gs))
         else gs)"

text \<open>
  \<^verbatim>\<open>_build_diagram_from_root\<close>: the new \<^verbatim>\<open>self.node_map\<close> and \<^verbatim>\<open>self.diagram\<close>. When
  there is no \<^verbatim>\<open>root\<close> child the cells are looked for under the model itself, so the
  later test for a missing root never fires and nothing is raised here.
\<close>

definition build_diagram_from_root :: "xml \<Rightarrow> node_index \<times> diagram" where
  "build_diagram_from_root root0 =
     (let root = (if tag root0 = ''diagram''
                  then (case xml_find root0 ''mxGraphModel'' of Some model \<Rightarrow> model | None \<Rightarrow> root0)
                  else root0);
          diagram_root = (case xml_find root ''root'' of Some r \<Rightarrow> r | None \<Rightarrow> root);
          st = fold build_cell (xml_findall diagram_root ''mxCell'')
                 ([], \<lparr>nodes = [], edges = [], groups = []\<rparr>);
          node_map = fst st;
          d = snd st
      in (node_map, d\<lparr>groups := fold (group_node node_map) (nodes d) []\<rparr>))"

subsection \<open>The conversion\<close>

text \<open>The page index after the range check.\<close>

definition select_index :: "bool \<Rightarrow> int \<Rightarrow> string list \<Rightarrow> error + nat" where
  "select_index strict_mode diagram_index diagram_pages =
     (if diagram_index < 0 \<or> diagram_index \<ge> int (length diagram_pages)
      then (if strict_mode then Inl IndexError else Inr 0)
      else Inr (nat diagram_index))"

text \<open>The body of the \<^verbatim>\<open>try\<close> block of \<^verbatim>\<open>convert\<close>.\<close>

definition convert_body ::
  "library \<Rightarrow> nat \<Rightarrow> bool \<Rightarrow> string \<Rightarrow> int \<Rightarrow> string \<Rightarrow> string \<Rightarrow> error + string" where
  "convert_body lib depth strict_mode input_data diagram_index direction diagram_type =
     (case decompress_data lib strict_mode [] input_data of
        Inl e \<Rightarrow> Inl e
      | Inr diagram_pages \<Rightarrow>
          if diagram_pages = []
          then (if strict_mode then Inl DiagramDecompressionError else Inr [])
          else (case select_index strict_mode diagram_index diagram_pages of
                  Inl e \<Rightarrow> Inl e
                | Inr i \<Rightarrow>
                    (case parse_xml lib strict_mode (diagram_pages ! i) of
                       Inl e \<Rightarrow> Inl e
                     | Inr None \<Rightarrow> Inr []
                     | Inr (Some root) \<Rightarrow>
                         (let built = build_diagram_from_root root
                          in Inr (emit_mermaid depth (fst built) (snd built)
                                    direction diagram_type)))))"

text \<open>
  \<^verbatim>\<open>convert\<close>: whatever the body raises is raised again in strict mode and turned into
  the empty text otherwise. \<open>depth\<close> is the stack depth left to the subgraph recursion.
\<close>

definition convert ::
  "library \<Rightarrow> nat \<Rightarrow> bool \<Rightarrow> string \<Rightarrow> int \<Rightarrow> string \<Rightarrow> string \<Rightarrow> error + string" where
  "convert lib depth strict_mode input_data diagram_index direction diagram_type =
     (case convert_body lib depth strict_mode input_data diagram_index direction diagram_type of
        Inl e \<Rightarrow> if strict_mode then Inl e else Inr []
      | Inr mermaid_code \<Rightarrow> Inr mermaid_code)"

section \<open>Notions of the specification\<close>

text \<open>What one token contributes, in the words of the specification.\<close>

definition style_entry :: "string \<Rightarrow> string \<times> style_val" where
  "style_entry token =
     (if CHR ''='' \<in> set token then (token_key token, SStr (token_value token))
      else (token, SFlag))"

text \<open>The label a node line shows: the trimmed label, or a placeholder for an empty one.\<close>

definition node_text :: "node \<Rightarrow> string" where
  "node_text node =
     (if node_label node = [] then ''Node_'' @ py_str (node_id node)
      else strip (node_label node))"

text \<open>
  The node line as the specification words it: the shape rules compare the style's
  \<^verbatim>\<open>shape\<close> value as it stands.
\<close>

definition claimed_node_line :: "node \<Rightarrow> string" where
  \<open>claimed_node_line node =
     (let style = node_style_dict node; label = node_text node
      in ''N'' @ py_str (node_id node) @
         (if map_of style ''shape'' = Some (SStr ''rhombus'') then ''{"'' @ label @ ''"}''
          else if map_of style ''shape'' = Some (SStr ''ellipse'') \<or> ''ellipse'' \<in> fst ` set style
          then ''(( "'' @ label @ ''" ))''
          else if map_of style ''rounded'' = Some (SStr ''1'')
                  \<or> map_of style ''shape'' = Some (SStr ''stadium'')
          then ''("'' @ label @ ''")''
          else ''["'' @ label @ ''"]''))\<close>

text \<open>The same rules on the lower-cased \<^verbatim>\<open>shape\<close> value.\<close>

definition shape_name :: "style_dict \<Rightarrow> string" where
  "shape_name style = (case map_of style ''shape'' of Some (SStr v) \<Rightarrow> lower v | _ \<Rightarrow> [])"

definition node_line :: "node \<Rightarrow> string" where
  \<open>node_line node =
     (let style = node_style_dict node; label = node_text node; shape = shape_name style
      in ''N'' @ py_str (node_id node) @
         (if shape = ''rhombus'' then ''{"'' @ label @ ''"}''
          else if shape = ''ellipse'' \<or> ''ellipse'' \<in> fst ` set style
          then ''(( "'' @ label @ ''" ))''
          else if map_of style ''rounded'' = Some (SStr ''1'') \<or> shape = ''stadium''
          then ''("'' @ label @ ''")''
          else ''["'' @ label @ ''"]''))\<close>

text \<open>
  Group membership as a relation on ids: \<open>c\<close> is a child of the registered group \<open>p\<close>
  and is itself a registered group.
\<close>

definition group_edges :: "group_index \<Rightarrow> (ident \<times> ident) set" where
  "group_edges gs =
     {(p, c). \<exists>grp. map_of gs p = Some grp \<and> c \<in> node_id ` set (group_children grp)
                \<and> map_of gs c \<noteq> None}"

text \<open>Every top-level call of the subgraph emission returns with the given stack depth.\<close>

definition emission_completes :: "nat \<Rightarrow> group_index \<Rightarrow> bool" where
  "emission_completes depth gs =
     list_all (\<lambda>(p, grp). \<not> isl (emit_subgraph_recursive depth gs p grp 0)) gs"

text \<open>The calls on the registered group \<open>p\<close> return with stack depth \<open>k\<close>.\<close>

definition registered_ok :: "group_index \<Rightarrow> ident \<Rightarrow> nat \<Rightarrow> bool" where
  "registered_ok gs p k =
     (\<forall>g lvl. map_of gs p = Some g \<longrightarrow> \<not> isl (emit_subgraph_recursive k gs p g lvl))"




section \<open>Sample documents\<close>

text \<open>
  Pages used in the closed examples below, as the element trees ElementTree builds for
  them. \<open>start_text\<close> is the text of \<open>start_page\<close>.
\<close>

definition cell :: "(string \<times> string) list \<Rightarrow> xml" where
  "cell attrs = Elem ''mxCell'' attrs None []"

definition page_of :: "xml list \<Rightarrow> xml" where
  "page_of cells = Elem ''mxGraphModel'' [] None [Elem ''root'' [] None cells]"

definition start_text :: string where
  \<open>start_text = ''<mxGraphModel><root><mxCell id="0"/><mxCell id="1" parent="0"/>''
     @ ''<mxCell id="2" value="Start" style="rounded=1" vertex="1" parent="1"/>''
     @ ''</root></mxGraphModel>''\<close>

definition start_page :: xml where
  "start_page = page_of
     [cell [(''id'', ''0'')], cell [(''id'', ''1''), (''parent'', ''0'')],
      cell [(''id'', ''2''), (''value'', ''Start''), (''style'', ''rounded=1''),
            (''vertex'', ''1''), (''parent'', ''1'')]]"

text \<open>
  A stand-in for the library in the closed examples. Its parser knows the one document
  above and rejects the truncated page \<^verbatim>\<open><mxGraphModel\<close>, which is not well-formed; no
  example consults it on another text. Its decoder is never reached: every example input
  carries the graph-model marker.
\<close>

definition sample_fromstring :: "string \<Rightarrow> xml option" where
  "sample_fromstring s = (if s = normalize_xml start_text then Some start_page else None)"

definition sample_library :: library where
  "sample_library =
     \<lparr>et_fromstring = sample_fromstring,
      decode_payload = (\<lambda>strict_mode d. if strict_mode then Inl DiagramDecompressionError else Inr None)\<rparr>"

definition start_node :: node where
  "start_node = \<lparr>node_id = Some ''2'', node_label = ''Start'', node_style = ''rounded=1'',
      node_style_dict = [(''rounded'', SStr ''1'')], node_geometry = [], node_parent = Some ''1''\<rparr>"

definition wrapped_text :: string where
  "wrapped_text = ''<diagram>abc</diagram><mxGraphModel/>''"

definition edges_page :: xml where
  "edges_page = page_of
     [cell [(''id'', ''0'')], cell [(''id'', ''1''), (''parent'', ''0'')],
      cell [(''id'', ''2''), (''value'', ''A''), (''vertex'', ''1''), (''parent'', ''1'')],
      cell [(''id'', ''3''), (''value'', ''B''), (''vertex'', ''1''), (''parent'', ''1'')],
      cell [(''id'', ''4''), (''value'', ''go''), (''style'', ''dashed=1''), (''edge'', ''1''),
            (''parent'', ''1''), (''source'', ''2''), (''target'', ''3'')],
      cell [(''id'', ''8''), (''value'', ''lost''), (''edge'', ''1''), (''parent'', ''1''),
            (''source'', ''2'')]]"

definition edge_go :: edge where
  "edge_go = \<lparr>edge_id = Some ''4'', edge_source = Some ''2'', edge_target = Some ''3'',
      edge_label = ''go'', edge_style = ''dashed=1'', edge_style_dict = [(''dashed'', SStr ''1'')]\<rparr>"

definition edge_lost :: edge where
  "edge_lost = \<lparr>edge_id = Some ''8'', edge_source = Some ''2'', edge_target = None,
      edge_label = ''lost'', edge_style = [], edge_style_dict = []\<rparr>"

definition dashed0_page :: xml where
  "dashed0_page = page_of
     [cell [(''id'', ''0'')], cell [(''id'', ''1''), (''parent'', ''0'')],
      cell [(''id'', ''2''), (''value'', ''A''), (''vertex'', ''1''), (''parent'', ''1'')],
      cell [(''id'', ''3''), (''value'', ''B''), (''vertex'', ''1''), (''parent'', ''1'')],
      cell [(''id'', ''4''), (''style'', ''dashed=0''), (''edge'', ''1''),
            (''parent'', ''1''), (''source'', ''2''), (''target'', ''3'')]]"

definition upper_page :: xml where
  "upper_page = page_of
     [cell [(''id'', ''0'')], cell [(''id'', ''1''), (''parent'', ''0'')],
      cell [(''id'', ''2''), (''value'', ''A''), (''style'', ''shape=RHOMBUS''),
            (''vertex'', ''1''), (''parent'', ''1'')]]"

definition upper_node :: node where
  "upper_node = \<lparr>node_id = Some ''2'', node_label = ''A'', node_style = ''shape=RHOMBUS'',
      node_style_dict = [(''shape'', SStr ''RHOMBUS'')], node_geometry = [],
      node_parent = Some ''1''\<rparr>"




definition nested_page :: xml where
  "nested_page = page_of
     [cell [(''id'', ''0'')], cell [(''id'', ''1''), (''parent'', ''0'')],
      cell [(''id'', ''5''), (''value'', ''Lane''), (''style'', ''swimlane''),
            (''vertex'', ''1''), (''parent'', ''1'')],
      cell [(''id'', ''6''), (''value'', ''Box''), (''style'', ''group''),
            (''vertex'', ''1''), (''parent'', ''5'')],
      cell [(''id'', ''7''), (''value'', ''Task''), (''vertex'', ''1''), (''parent'', ''6'')]]"

definition box_node :: node where
  "box_node = \<lparr>node_id = Some ''6'', node_label = ''Box'', node_style = ''group'',
      node_style_dict = [(''group'', SFlag)], node_geometry = [], node_parent = Some ''5''\<rparr>"

definition inner_node :: node where
  "inner_node = \<lparr>node_id = Some ''7'', node_label = ''Task'', node_style = [],
      node_style_dict = [], node_geometry = [], node_parent = Some ''6''\<rparr>"

definition nested_groups :: group_index where
  "nested_groups =
     [(Some ''5'', \<lparr>group_label = ''Lane'', group_children = [box_node]\<rparr>),
      (Some ''6'', \<lparr>group_label = ''Box'', group_children = [inner_node]\<rparr>)]"



definition nested_model :: "node_index \<times> diagram" where
  "nested_model = build_diagram_from_root nested_page"

text \<open>A page cut off inside its first tag.\<close>

definition broken_text :: string where
  "broken_text = ''<mxGraphModel''"






section \<open>Properties\<close>

subsection \<open>Page extraction\<close>

lemma contains_iff: "contains sub s \<longleftrightarrow> (\<exists>pre post. s = pre @ sub @ post)"
proof (induction s)
  case Nil
  show ?case by simp
next
  case (Cons c cs)
  show ?case
  proof
    assume "contains sub (c # cs)"
    then consider "prefix sub (c # cs)" | "contains sub cs" by auto
    then show "\<exists>pre post. c # cs = pre @ sub @ post"
    proof cases
      case 1
      then obtain post where "c # cs = sub @ post" by (auto simp: prefix_def)
      then have "c # cs = [] @ sub @ post" by simp
      then show ?thesis by blast
    next
      case 2
      with Cons obtain pre post where "cs = pre @ sub @ post" by blast
      then have "c # cs = (c # pre) @ sub @ post" by simp
      then show ?thesis by blast
    qed
  next
    assume "\<exists>pre post. c # cs = pre @ sub @ post"
    then obtain pre post where eq: "c # cs = pre @ sub @ post" by blast
    show "contains sub (c # cs)"
    proof (cases pre)
      case Nil
      with eq have "prefix sub (c # cs)" by (simp add: prefix_def)
      then show ?thesis by simp
    next
      case (Cons p ps)
      with eq have "cs = ps @ sub @ post" by simp
      with Cons.IH have "contains sub cs" by blast
      then show ?thesis by simp
    qed
  qed
qed

text \<open>
  Claim C1. Whatever stands before and after the marker \<^verbatim>\<open><mxGraphModel\<close> in the input,
  page extraction returns exactly one page, the input itself, unchanged. This holds in
  strict and in relaxed mode and for every library: the \<^verbatim>\<open><diagram>\<close> fragments of the
  input are not looked at, and nothing is decoded.
\<close>

theorem marker_short_circuit:
  "decompress_data lib strict_mode [] (pre @ ''<mxGraphModel'' @ post)
     = Inr [pre @ ''<mxGraphModel'' @ post]
   \<and> list_diagram_pages lib strict_mode (pre @ ''<mxGraphModel'' @ post) = Inr [0]"
proof -
  have "contains ''<mxGraphModel'' (pre @ ''<mxGraphModel'' @ post)"
    unfolding contains_iff by blast
  then show ?thesis by (simp add: decompress_data_def list_diagram_pages_def)
qed

text \<open>An input that carries a \<^verbatim>\<open><diagram>\<close> fragment besides the marker.\<close>

theorem marker_short_circuit_witness:
  "findall_diagram wrapped_text = [''abc'']
   \<and> decompress_data sample_library True [] wrapped_text = Inr [wrapped_text]
   \<and> decompress_data sample_library False [] wrapped_text = Inr [wrapped_text]
   \<and> list_diagram_pages sample_library True wrapped_text = Inr [0]"
proof -
  have f: "findall_diagram wrapped_text = [''abc'']" by code_simp
  have w: "wrapped_text = ''<diagram>abc</diagram>'' @ ''<mxGraphModel'' @ ''/>''"
    by (simp add: wrapped_text_def)
  show ?thesis
    using f marker_short_circuit [of sample_library True "''<diagram>abc</diagram>''" "''/>''"]
      marker_short_circuit [of sample_library False "''<diagram>abc</diagram>''" "''/>''"]
    unfolding w by simp
qed

subsection \<open>Node lines\<close>

lemma format_node_eq:
  assumes "node_id node = Some i" and "map_of (node_style_dict node) ''shape'' \<noteq> Some SFlag"
  shows "format_node node = Inr (node_line node)"
proof -
  have shape: "style_shape (node_style_dict node) = Inr (shape_name (node_style_dict node))"
    using assms(2) by (auto simp: style_shape_def shape_name_def split: option.splits style_val.splits)
  have key: "(map_of (node_style_dict node) ''ellipse'' \<noteq> None)
      = (''ellipse'' \<in> fst ` set (node_style_dict node))"
    by (simp add: map_of_eq_None_iff)
  show ?thesis
    unfolding format_node_def node_line_def node_text_def Let_def shape key
    using assms(1) by (simp add: py_str_def)
qed

text \<open>
  Claim C2, as stated, fails: the shape rules do not compare the \<^verbatim>\<open>shape\<close> value as it
  stands but its lower-cased form. A vertex with style \<^verbatim>\<open>shape=RHOMBUS\<close> is drawn as a
  diamond, where the stated rules give a rectangle.
\<close>

theorem shape_case_counterexample:
  \<open>nodes (snd (build_diagram_from_root upper_page)) = [upper_node]
   \<and> format_node upper_node = Inr ''N2{"A"}''
   \<and> claimed_node_line upper_node = ''N2["A"]''
   \<and> format_node upper_node \<noteq> Inr (claimed_node_line upper_node)\<close>
proof -
  have a: "nodes (snd (build_diagram_from_root upper_page)) = [upper_node]" by code_simp
  have b: \<open>format_node upper_node = Inr ''N2{"A"}''\<close> by code_simp
  have c: \<open>claimed_node_line upper_node = ''N2["A"]''\<close> by code_simp
  from a b c show ?thesis by simp
qed

text \<open>
  Claim C2, amended. For every node that has an id and whose style does not carry
  \<^verbatim>\<open>shape\<close> as a bare flag, the node line is \<^verbatim>\<open>N\<close> followed by the id and the shape of
  the first matching rule, the \<^verbatim>\<open>shape\<close> value being compared in lower case: a diamond
  for \<^verbatim>\<open>rhombus\<close>; a double circle for \<^verbatim>\<open>ellipse\<close> or when an \<^verbatim>\<open>ellipse\<close> key is present;
  a rounded box for \<^verbatim>\<open>rounded=1\<close> or \<^verbatim>\<open>stadium\<close>; a rectangle otherwise. The label is the
  trimmed label, or \<^verbatim>\<open>Node_<id>\<close> when the label is empty. This is the line of the flat
  pass for a node no group has emitted, and, indented, the line inside a group.
\<close>

theorem format_node_line:
  assumes "node_id node = Some i" and "map_of (node_style_dict node) ''shape'' \<noteq> Some SFlag"
  shows "format_node node = Inr (node_line node)
    \<and> (node_id node \<notin> nodes_emitted \<longrightarrow> emit_nodes nodes_emitted [node] = [node_line node])
    \<and> (map_of gs (node_id node) = None \<longrightarrow>
         emit_members nested gs indent [node] = Inr [indent @ ''    '' @ node_line node])"
  using format_node_eq [OF assms] by (simp add: emit_nodes_def)

text \<open>Scenario A: the lone vertex 2 with label \<^verbatim>\<open>Start\<close> and style \<^verbatim>\<open>rounded=1\<close>.\<close>

theorem format_node_line_witness:
  \<open>node_id start_node = Some ''2''
   \<and> map_of (node_style_dict start_node) ''shape'' \<noteq> Some SFlag
   \<and> nodes (snd (build_diagram_from_root start_page)) = [start_node]
   \<and> format_node start_node = Inr ''N2("Start")''
   \<and> emit_nodes {} [start_node] = [''N2("Start")'']
   \<and> convert sample_library 1000 True start_text 0 ''TD'' ''flowchart''
       = Inr ''flowchart TD\<newline>N2("Start")''\<close>
proof -
  have i: "node_id start_node = Some ''2''" by (simp add: start_node_def)
  have s: "map_of (node_style_dict start_node) ''shape'' \<noteq> Some SFlag"
    by (simp add: start_node_def)
  have l: \<open>node_line start_node = ''N2("Start")''\<close> by code_simp
  have n: "nodes (snd (build_diagram_from_root start_page)) = [start_node]" by code_simp
  have c: \<open>convert sample_library 1000 True start_text 0 ''TD'' ''flowchart''
       = Inr ''flowchart TD\<newline>N2("Start")''\<close> by code_simp
  from format_node_line [OF i s, of "{}"] i s l n c show ?thesis by simp
qed

subsection \<open>Edge lines\<close>

text \<open>What \<^const>\<open>format_edge\<close> computes for an edge with both endpoints.\<close>

lemma arrow_heads:
  "replace ''->'' ''-'' ''-->'' = ''--'' \<and> replace ''->'' ''-'' ''-.->'' = ''-.-''"
  by code_simp

lemma format_edge_arrow:
  assumes "edge_source e = Some s" and "edge_target e = Some t"
  shows \<open>format_edge e =
     Inr (let dotted = truthy (map_of (edge_style_dict e) ''dashed'');
              headless = (map_of (edge_style_dict e) ''endArrow'' = Some (SStr ''none''));
              arrow = (if dotted then (if headless then ''-.-'' else ''-.->'')
                       else (if headless then ''--'' else ''-->''))
          in if strip (edge_label e) \<noteq> []
             then ''N'' @ s @ '' -- "'' @ strip (edge_label e) @ ''" '' @ arrow @ '' N'' @ t
             else ''N'' @ s @ '' '' @ arrow @ '' N'' @ t)\<close>
proof -
  have "map_of (edge_style_dict e) ''dashed'' = Some (SStr ''1'')
      \<Longrightarrow> truthy (map_of (edge_style_dict e) ''dashed'')"
    by (simp add: truthy_def)
  then show ?thesis
    using assms arrow_heads by (auto simp: format_edge_def Let_def)
qed

text \<open>Scenario B: a dashed, labelled edge between two rectangles.\<close>

lemma dashed_edge_example:
  \<open>edges (snd (build_diagram_from_root edges_page)) = [edge_go, edge_lost]
   \<and> format_edge edge_go = Inr ''N2 -- "go" -.-> N3''\<close>
  by code_simp

text \<open>
  Claim C3 holds for a \<^verbatim>\<open>dashed\<close> flag and for \<^verbatim>\<open>dashed=1\<close>, and the code departs from
  it on other values: the test \<^verbatim>\<open>style.get("dashed") or style.get("dashed") == "1"\<close>
  succeeds on every non-empty value. The edge below has style \<^verbatim>\<open>dashed=0\<close> and no label;
  the claim gives the solid \<^verbatim>\<open>N2 --> N3\<close>, the code emits the dotted arrow.
\<close>

theorem dashed_zero_rendered_dotted:
  \<open>emit_mermaid 1000 (fst (build_diagram_from_root dashed0_page))
      (snd (build_diagram_from_root dashed0_page)) ''TD'' ''flowchart''
   = ''flowchart TD\<newline>N2["A"]\<newline>N3["B"]\<newline>N2 -.-> N3''\<close>
  by code_simp

text \<open>The edge pass works edge by edge.\<close>

lemma emit_edges_append: "emit_edges nm (es1 @ es2) = emit_edges nm es1 @ emit_edges nm es2"
  by (simp add: emit_edges_def)

lemma emit_edges_unresolved:
  "map_of nm (edge_source e) = None \<or> map_of nm (edge_target e) = None
    \<Longrightarrow> emit_edges nm [e] = []"
  by (auto simp: emit_edges_def)

text \<open>
  Claim C4. An edge whose source or target is not a key of the node index (a missing
  attribute is the key \<^verbatim>\<open>None\<close>) leaves no trace in the output: the text is the one the
  same model gives without that edge. The emitter returns a text and raises nothing; it
  does not consult the mode.
\<close>

theorem unresolved_edge_omitted:
  assumes "map_of node_map (edge_source e) = None \<or> map_of node_map (edge_target e) = None"
  shows "emit_mermaid depth node_map (d\<lparr>edges := es1 @ e # es2\<rparr>) direction diagram_type
         = emit_mermaid depth node_map (d\<lparr>edges := es1 @ es2\<rparr>) direction diagram_type"
proof -
  have "emit_edges node_map (es1 @ e # es2) = emit_edges node_map (es1 @ es2)"
    using emit_edges_unresolved [OF assms] emit_edges_append [of node_map es1 "[e] @ es2"]
      emit_edges_append [of node_map "[e]" es2] emit_edges_append [of node_map es1 es2]
    by simp
  then show ?thesis by (simp add: emit_mermaid_def)
qed

text \<open>An edge from node 2 with no target attribute, after the edge of Scenario B.\<close>

theorem unresolved_edge_omitted_witness:
  \<open>map_of (fst (build_diagram_from_root edges_page)) (edge_target edge_lost) = None
   \<and> edges (snd (build_diagram_from_root edges_page)) = [edge_go, edge_lost]
   \<and> emit_mermaid 1000 (fst (build_diagram_from_root edges_page))
        (snd (build_diagram_from_root edges_page)) ''TD'' ''flowchart''
      = emit_mermaid 1000 (fst (build_diagram_from_root edges_page))
          ((snd (build_diagram_from_root edges_page))\<lparr>edges := [edge_go]\<rparr>) ''TD'' ''flowchart''
   \<and> emit_mermaid 1000 (fst (build_diagram_from_root edges_page))
        (snd (build_diagram_from_root edges_page)) ''TD'' ''flowchart''
      = ''flowchart TD\<newline>N2["A"]\<newline>N3["B"]\<newline>N2 -- "go" -.-> N3''\<close>
proof -
  let ?nm = "fst (build_diagram_from_root edges_page)"
  let ?d = "snd (build_diagram_from_root edges_page)"
  have h: "map_of ?nm (edge_target edge_lost) = None" by code_simp
  have e: "edges ?d = [edge_go, edge_lost]" by code_simp
  have v: \<open>emit_mermaid 1000 ?nm ?d ''TD'' ''flowchart''
      = ''flowchart TD\<newline>N2["A"]\<newline>N3["B"]\<newline>N2 -- "go" -.-> N3''\<close> by code_simp
  have d: "?d\<lparr>edges := [edge_go] @ edge_lost # []\<rparr> = ?d"
    using e by simp
  from unresolved_edge_omitted [where node_map = ?nm and e = edge_lost and depth = 1000
      and d = ?d and ?es1.0 = "[edge_go]" and ?es2.0 = "[]" and direction = "''TD''"
      and diagram_type = "''flowchart''"] h d
  have "emit_mermaid 1000 ?nm ?d ''TD'' ''flowchart''
      = emit_mermaid 1000 ?nm (?d\<lparr>edges := [edge_go]\<rparr>) ''TD'' ''flowchart''"
    by simp
  with h e v show ?thesis by simp
qed

subsection \<open>Subgraph emission and the stack depth\<close>

text \<open>A call that returns with some depth returns the same lines with any larger depth.\<close>

lemma emit_members_mono:
  assumes "\<And>cid ng ls. nested cid ng = Inr ls \<Longrightarrow> nested' cid ng = Inr ls"
  shows "emit_members nested gs ind cs = Inr ls \<Longrightarrow> emit_members nested' gs ind cs = Inr ls"
proof (induction cs arbitrary: ls)
  case Nil
  then show ?case by simp
next
  case (Cons c cs)
  show ?case
  proof (cases "map_of gs (node_id c)")
    case None
    with Cons show ?thesis by (auto split: sum.splits)
  next
    case (Some ng)
    with Cons.prems obtain l1 l2 where
      l1: "nested (node_id c) ng = Inr l1" and l2: "emit_members nested gs ind cs = Inr l2"
      and ls: "ls = l1 @ l2"
      by (auto split: sum.splits)
    from l1 have "nested' (node_id c) ng = Inr l1" by (rule assms)
    moreover from l2 have "emit_members nested' gs ind cs = Inr l2" by (rule Cons.IH)
    ultimately show ?thesis using Some ls by simp
  qed
qed

lemma emit_subgraph_Suc:
  "emit_subgraph_recursive k gs p g lvl = Inr ls
    \<Longrightarrow> emit_subgraph_recursive (Suc k) gs p g lvl = Inr ls"
proof (induction k arbitrary: p g lvl ls)
  case 0
  then show ?case by simp
next
  case (Suc k)
  let ?ind = "concat (replicate lvl ''    '')"
  from Suc.prems obtain body where
    body: "emit_members (\<lambda>c ng. emit_subgraph_recursive k gs c ng (lvl + 1)) gs ?ind
             (group_children g) = Inr body"
    and ls: "ls = [?ind @ ''subgraph '' @ py_str p @ ''['' @ group_label g @ '']'']
                  @ body @ [?ind @ ''end'']"
    by (auto simp: Let_def split: sum.splits)
  have "emit_members (\<lambda>c ng. emit_subgraph_recursive (Suc k) gs c ng (lvl + 1)) gs ?ind
          (group_children g) = Inr body"
    by (rule emit_members_mono [OF _ body]) (rule Suc.IH)
  then show ?case using ls by (simp add: Let_def)
qed

lemma emit_subgraph_mono:
  "k \<le> k' \<Longrightarrow> emit_subgraph_recursive k gs p g lvl = Inr ls
    \<Longrightarrow> emit_subgraph_recursive k' gs p g lvl = Inr ls"
  by (induction k' rule: dec_induct) (simp_all add: emit_subgraph_Suc del: emit_subgraph_recursive.simps)

lemma not_isl_Inr: "\<not> isl r \<longleftrightarrow> (\<exists>ls. r = Inr ls)"
  by (cases r) simp_all

lemma emit_subgraph_mono_ok:
  "k \<le> k' \<Longrightarrow> \<not> isl (emit_subgraph_recursive k gs p g lvl)
    \<Longrightarrow> \<not> isl (emit_subgraph_recursive k' gs p g lvl)"
  unfolding not_isl_Inr by (blast intro: emit_subgraph_mono)

lemma emit_groups_mono:
  assumes "k \<le> k'"
  shows "\<forall>(p, g) \<in> set rest. \<not> isl (emit_subgraph_recursive k gs p g 0)
    \<Longrightarrow> emit_groups k' gs rest acc = emit_groups k gs rest acc"
proof (induction rest arbitrary: acc)
  case Nil
  show ?case by (cases acc) simp
next
  case (Cons pg rest)
  obtain p g where pg: "pg = (p, g)" by (cases pg)
  obtain ls em where acc: "acc = (ls, em)" by (cases acc)
  from Cons.prems pg obtain gl where gl: "emit_subgraph_recursive k gs p g 0 = Inr gl"
    by (auto simp: not_isl_Inr)
  then have gl': "emit_subgraph_recursive k' gs p g 0 = Inr gl"
    using assms by (rule emit_subgraph_mono [rotated])
  from Cons.prems have "\<forall>(p, g) \<in> set rest. \<not> isl (emit_subgraph_recursive k gs p g 0)"
    by simp
  from Cons.IH [OF this] show ?case using pg acc gl gl' by simp
qed

lemma emit_mermaid_mono:
  assumes "k \<le> k'" and "emission_completes k (groups d)"
  shows "emit_mermaid k' nm d dir ty = emit_mermaid k nm d dir ty"
proof -
  from assms(2) have "\<forall>(p, g) \<in> set (groups d).
      \<not> isl (emit_subgraph_recursive k (groups d) p g 0)"
    by (simp add: emission_completes_def list_all_iff)
  from emit_groups_mono [OF assms(1) this] show ?thesis
    by (simp add: emit_mermaid_def)
qed

text \<open>Acyclic membership: every call returns once the depth suffices.\<close>

lemma finite_group_edges: "finite (group_edges gs)"
proof (rule finite_subset)
  show "group_edges gs \<subseteq> fst ` set gs \<times> fst ` set gs"
  proof
    fix x assume "x \<in> group_edges gs"
    then obtain p c grp where x: "x = (p, c)" and p: "map_of gs p = Some grp"
      and c: "map_of gs c \<noteq> None"
      by (auto simp: group_edges_def)
    from p have "p \<in> fst ` set gs" by (auto dest: map_of_SomeD intro: rev_image_eqI)
    moreover from c have "c \<in> fst ` set gs" by (simp add: map_of_eq_None_iff)
    ultimately show "x \<in> fst ` set gs \<times> fst ` set gs" using x by simp
  qed
  show "finite (fst ` set gs \<times> fst ` set gs)" by simp
qed

lemma emit_members_ok:
  "(\<And>c ng. c \<in> set cs \<Longrightarrow> map_of gs (node_id c) = Some ng \<Longrightarrow> \<not> isl (nested (node_id c) ng))
    \<Longrightarrow> \<not> isl (emit_members nested gs ind cs)"
proof (induction cs)
  case Nil
  show ?case by simp
next
  case (Cons c cs)
  have tl: "\<not> isl (emit_members nested gs ind cs)"
    by (rule Cons.IH) (simp add: Cons.prems)
  show ?case
  proof (cases "map_of gs (node_id c)")
    case None
    with tl show ?thesis by (auto simp: not_isl_Inr split: sum.splits)
  next
    case (Some ng)
    have "\<not> isl (nested (node_id c) ng)" by (rule Cons.prems) (simp_all add: Some)
    with tl Some show ?thesis by (auto simp: not_isl_Inr split: sum.splits)
  qed
qed

lemma emit_members_fail:
  "c \<in> set cs \<Longrightarrow> map_of gs (node_id c) = Some ng \<Longrightarrow> isl (nested (node_id c) ng)
    \<Longrightarrow> isl (emit_members nested gs ind cs)"
proof (induction cs)
  case Nil
  then show ?case by simp
next
  case (Cons a cs)
  show ?case
  proof (cases "a = c")
    case True
    with Cons.prems show ?thesis by (auto simp: isl_def Let_def split: sum.splits)
  next
    case False
    with Cons have "isl (emit_members nested gs ind cs)" by simp
    then show ?thesis
      by (cases "map_of gs (node_id a)") (auto simp: isl_def Let_def split: sum.splits)
  qed
qed

lemma uniform_bound:
  assumes "\<And>x. x \<in> set xs \<Longrightarrow> \<exists>n. R x n" and "\<And>x n m. R x n \<Longrightarrow> n \<le> m \<Longrightarrow> R x m"
  shows "\<exists>m::nat. \<forall>x \<in> set xs. R x m"
  using assms(1)
proof (induction xs)
  case Nil
  show ?case by simp
next
  case (Cons x xs)
  then obtain m where m: "\<forall>y \<in> set xs. R y m" by auto
  from Cons.prems obtain n where n: "R x n" by auto
  have "R x (max n m)" using n by (rule assms(2)) simp
  moreover have "\<forall>y \<in> set xs. R y (max n m)" using m assms(2) by (meson max.cobounded2)
  ultimately show ?case by auto
qed

lemma registered_ok_mono: "registered_ok gs p k \<Longrightarrow> k \<le> k' \<Longrightarrow> registered_ok gs p k'"
  using emit_subgraph_mono_ok [of k k' gs p] by (auto simp: registered_ok_def)

lemma emit_subgraph_Suc_ok:
  assumes "\<And>c. c \<in> set (group_children g) \<Longrightarrow> registered_ok gs (node_id c) k"
  shows "\<not> isl (emit_subgraph_recursive (Suc k) gs p g lvl)"
proof -
  have "\<not> isl (emit_members (\<lambda>c ng. emit_subgraph_recursive k gs c ng (lvl + 1)) gs
          (concat (replicate lvl ''    '')) (group_children g))"
    by (rule emit_members_ok) (use assms in \<open>auto simp: registered_ok_def\<close>)
  then show ?thesis by (auto simp: Let_def not_isl_Inr split: sum.splits)
qed

lemma acyclic_registered_ok:
  assumes "acyclic (group_edges gs)"
  shows "\<exists>k. registered_ok gs p k"
proof -
  have wf: "wf ((group_edges gs)\<inverse>)"
    using finite_group_edges assms by (rule finite_acyclic_wf_converse)
  show ?thesis
  proof (induction p rule: wf_induct_rule [OF wf])
    case (1 p)
    show ?case
    proof (cases "map_of gs p")
      case None
      then show ?thesis by (simp add: registered_ok_def)
    next
      case (Some g)
      have "\<exists>k. registered_ok gs (node_id c) k" if "c \<in> set (group_children g)" for c
      proof (cases "map_of gs (node_id c)")
        case None
        then show ?thesis by (simp add: registered_ok_def)
      next
        case (Some ng)
        with that \<open>map_of gs p = Some g\<close> have "(p, node_id c) \<in> group_edges gs"
          by (auto simp: group_edges_def)
        then show ?thesis using "1.IH" by simp
      qed
      then have "\<exists>m. \<forall>c \<in> set (group_children g). registered_ok gs (node_id c) m"
        by (intro uniform_bound [where R = "\<lambda>c k. registered_ok gs (node_id c) k"])
          (auto intro: registered_ok_mono)
      then obtain m where m: "\<And>c. c \<in> set (group_children g) \<Longrightarrow> registered_ok gs (node_id c) m"
        by blast
      have "registered_ok gs p (Suc m)"
        unfolding registered_ok_def using Some emit_subgraph_Suc_ok [OF m] by auto
      then show ?thesis ..
    qed
  qed
qed

lemma acyclic_emission_completes:
  assumes "acyclic (group_edges gs)"
  shows "\<exists>N. \<forall>k\<ge>N. \<forall>p g lvl. \<not> isl (emit_subgraph_recursive k gs p g lvl)"
proof -
  have "\<exists>m. \<forall>p \<in> set (map fst gs). registered_ok gs p m"
    by (intro uniform_bound [where R = "\<lambda>p k. registered_ok gs p k"])
      (auto intro: acyclic_registered_ok [OF assms] registered_ok_mono)
  then obtain m where m: "\<forall>p \<in> set (map fst gs). registered_ok gs p m" ..
  have all: "registered_ok gs p m" for p
  proof (cases "p \<in> set (map fst gs)")
    case True
    with m show ?thesis by blast
  next
    case False
    then have "map_of gs p = None" by (simp add: map_of_eq_None_iff)
    then show ?thesis by (simp add: registered_ok_def)
  qed
  have "\<not> isl (emit_subgraph_recursive k gs p g lvl)" if "Suc m \<le> k" for k p g lvl
  proof -
    from that obtain k' where k: "k = Suc k'" and "m \<le> k'" by (cases k) auto
    then have "registered_ok gs q k'" for q using all registered_ok_mono by blast
    then show ?thesis unfolding k by (intro emit_subgraph_Suc_ok)
  qed
  then show ?thesis by blast
qed

lemma cyclic_emission_fails:
  assumes "(q, q) \<in> (group_edges gs)\<^sup>+"
  shows "(p, q) \<in> (group_edges gs)\<^sup>* \<Longrightarrow> map_of gs p = Some g
    \<Longrightarrow> isl (emit_subgraph_recursive k gs p g lvl)"
proof (induction k arbitrary: p g lvl)
  case 0
  show ?case by simp
next
  case (Suc k)
  from Suc.prems(1) assms have "(p, q) \<in> (group_edges gs)\<^sup>+" by (rule rtrancl_trancl_trancl)
  then obtain c where pc: "(p, c) \<in> group_edges gs" and cq: "(c, q) \<in> (group_edges gs)\<^sup>*"
    by (blast dest: tranclD)
  from pc Suc.prems(2) obtain child ng where child: "child \<in> set (group_children g)"
    and c: "c = node_id child" and ng: "map_of gs c = Some ng"
    by (auto simp: group_edges_def)
  have "isl (emit_subgraph_recursive k gs c ng (lvl + 1))"
    using cq ng by (rule Suc.IH)
  then have "isl (emit_members (\<lambda>c ng. emit_subgraph_recursive k gs c ng (lvl + 1)) gs
          (concat (replicate lvl ''    '')) (group_children g))"
    using child ng unfolding c by (intro emit_members_fail [where c = child and ng = ng]) auto
  then show ?case by (auto simp: Let_def isl_def split: sum.splits)
qed



lemma emit_nodes_append: "emit_nodes em (a @ b) = emit_nodes em a @ emit_nodes em b"
  by (simp add: emit_nodes_def)

lemma emit_nodes_skip: "node_id n \<in> em \<Longrightarrow> emit_nodes em (ns1 @ n # ns2) = emit_nodes em (ns1 @ ns2)"
  by (simp add: emit_nodes_def)



lemma acyclic_no_edges: "acyclic ({} :: ('a \<times> 'a) set)"
  by (simp add: acyclic_def)











text \<open>
  Claim C6 is what the recursion is written for, and the outer loop departs from it: it
  runs over every entry of the group index, nested groups included, so the block of a
  nested group is emitted inside its parent and once more at the top level. Below, group
  6 lies in swimlane 5 and holds node 7.
\<close>

theorem nested_group_emitted_twice:
  \<open>groups (snd nested_model) = nested_groups
   \<and> emit_mermaid 1000 (fst nested_model) (snd nested_model) ''TD'' ''flowchart''
       = ''flowchart TD\<newline>subgraph 5[Lane]\<newline>    subgraph 6[Box]\<newline>        N7["Task"]\<newline>    end\<newline>end\<newline>subgraph 6[Box]\<newline>    N7["Task"]\<newline>end\<newline>N5["Lane"]''\<close>
proof -
  have g: "groups (snd nested_model) = nested_groups" by code_simp
  have c: "emission_completes 3 (groups (snd nested_model))" by code_simp
  have \<open>emit_mermaid 3 (fst nested_model) (snd nested_model) ''TD'' ''flowchart''
       = ''flowchart TD\<newline>subgraph 5[Lane]\<newline>    subgraph 6[Box]\<newline>        N7["Task"]\<newline>    end\<newline>end\<newline>subgraph 6[Box]\<newline>    N7["Task"]\<newline>end\<newline>N5["Lane"]''\<close>
    by code_simp
  then show ?thesis
    using g emit_mermaid_mono [of 3 1000, OF _ c] by simp
qed

text \<open>
  Claim C10. The recursion has no visited set and no depth check: a call returns unless
  the stack runs out. For a group index with acyclic membership every call returns once
  the stack admits enough nested calls, whatever group and indentation it is given; and
  this holds for acyclic membership only: on a cycle the calls fail at every depth.
\<close>

theorem emission_total_iff_acyclic:
  "acyclic (group_edges gs) \<longleftrightarrow>
     (\<exists>N. \<forall>k\<ge>N. \<forall>p g lvl. \<not> isl (emit_subgraph_recursive k gs p g lvl))"
proof
  assume "acyclic (group_edges gs)"
  then show "\<exists>N. \<forall>k\<ge>N. \<forall>p g lvl. \<not> isl (emit_subgraph_recursive k gs p g lvl)"
    by (rule acyclic_emission_completes)
next
  assume "\<exists>N. \<forall>k\<ge>N. \<forall>p g lvl. \<not> isl (emit_subgraph_recursive k gs p g lvl)"
  then obtain N where N: "\<And>p g lvl. \<not> isl (emit_subgraph_recursive N gs p g lvl)" by blast
  show "acyclic (group_edges gs)"
  proof (rule acyclicI, rule allI, rule notI)
    fix q assume qq: "(q, q) \<in> (group_edges gs)\<^sup>+"
    then obtain c where "(q, c) \<in> group_edges gs" by (blast dest: tranclD)
    then obtain g where "map_of gs q = Some g" by (auto simp: group_edges_def)
    with qq have "isl (emit_subgraph_recursive N gs q g 0)"
      by (intro cyclic_emission_fails [OF qq]) auto
    with N show False by blast
  qed
qed

text \<open>The nested groups above: 6 inside 5.\<close>

theorem emission_total_iff_acyclic_witness:
  \<open>group_edges nested_groups = {(Some ''5'', Some ''6'')}
   \<and> acyclic (group_edges nested_groups)
   \<and> (\<exists>N. \<forall>k\<ge>N. \<forall>p g lvl. \<not> isl (emit_subgraph_recursive k nested_groups p g lvl))
   \<and> emit_subgraph_recursive 2 nested_groups (Some ''6'')
        \<lparr>group_label = ''Box'', group_children = [inner_node]\<rparr> 1
       = Inr [''    subgraph 6[Box]'', ''        N7["Task"]'', ''    end'']\<close>
proof -
  have e: "group_edges nested_groups = {(Some ''5'', Some ''6'')}"
    by (auto simp: group_edges_def nested_groups_def box_node_def inner_node_def
        split: if_splits)
  have a: "acyclic (group_edges nested_groups)"
    unfolding e by (simp add: acyclic_no_edges)
  have v: \<open>emit_subgraph_recursive 2 nested_groups (Some ''6'')
        \<lparr>group_label = ''Box'', group_children = [inner_node]\<rparr> 1
       = Inr [''    subgraph 6[Box]'', ''        N7["Task"]'', ''    end'']\<close>
    by code_simp
  from emission_total_iff_acyclic [of nested_groups] a e v show ?thesis by simp
qed

subsection \<open>The conversion\<close>

text \<open>
  Claim C7. When extraction yields at least one page and the requested index is negative
  or not below the number of pages, \<^const>\<open>convert\<close> raises \<^verbatim>\<open>IndexError\<close> in strict
  mode and, in relaxed mode, returns what it returns for index 0.
\<close>

theorem convert_index_out_of_range:
  assumes "decompress_data lib strict_mode [] input_data = Inr pages"
    and "pages \<noteq> []"
    and "diagram_index < 0 \<or> int (length pages) \<le> diagram_index"
  shows "convert lib depth strict_mode input_data diagram_index direction diagram_type
         = (if strict_mode then Inl IndexError
            else convert lib depth strict_mode input_data 0 direction diagram_type)"
  using assms by (cases strict_mode) (auto simp: convert_def convert_body_def select_index_def)

text \<open>Scenario E: index 5, and index -1, on the one-page document.\<close>

theorem convert_index_out_of_range_witness:
  \<open>decompress_data sample_library True [] start_text = Inr [start_text]
   \<and> decompress_data sample_library False [] start_text = Inr [start_text]
   \<and> convert sample_library 1000 True start_text 5 ''TD'' ''flowchart'' = Inl IndexError
   \<and> convert sample_library 1000 True start_text (- 1) ''TD'' ''flowchart'' = Inl IndexError
   \<and> convert sample_library 1000 False start_text 5 ''TD'' ''flowchart''
       = Inr ''flowchart TD\<newline>N2("Start")''
   \<and> convert sample_library 1000 False start_text (- 1) ''TD'' ''flowchart''
       = Inr ''flowchart TD\<newline>N2("Start")''\<close>
proof -
  have t: "decompress_data sample_library True [] start_text = Inr [start_text]" by code_simp
  have f: "decompress_data sample_library False [] start_text = Inr [start_text]" by code_simp
  have z: \<open>convert sample_library 1000 False start_text 0 ''TD'' ''flowchart''
       = Inr ''flowchart TD\<newline>N2("Start")''\<close> by code_simp
  show ?thesis
    using t f z
      convert_index_out_of_range [OF t, of 5 1000 "''TD''" "''flowchart''"]
      convert_index_out_of_range [OF t, of "- 1" 1000 "''TD''" "''flowchart''"]
      convert_index_out_of_range [OF f, of 5 1000 "''TD''" "''flowchart''"]
      convert_index_out_of_range [OF f, of "- 1" 1000 "''TD''" "''flowchart''"]
    by simp
qed

text \<open>
  Claim C8, as stated, fails in strict mode: a page that does not parse makes
  \<^verbatim>\<open>_parse_xml\<close> raise \<^verbatim>\<open>DiagramParsingError\<close>, and \<^const>\<open>convert\<close> raises it again
  instead of returning the empty text.
\<close>

theorem strict_parse_failure_counterexample:
  "decompress_data sample_library True [] broken_text = Inr [broken_text]
   \<and> et_fromstring sample_library (normalize_xml broken_text) = None
   \<and> convert sample_library 1000 True broken_text 0 ''TD'' ''flowchart''
       = Inl DiagramParsingError
   \<and> convert sample_library 1000 True broken_text 0 ''TD'' ''flowchart'' \<noteq> Inr []"
proof -
  have a: "decompress_data sample_library True [] broken_text = Inr [broken_text]" by code_simp
  have b: "et_fromstring sample_library (normalize_xml broken_text) = None" by code_simp
  have c: "convert sample_library 1000 True broken_text 0 ''TD'' ''flowchart''
       = Inl DiagramParsingError" by code_simp
  from a b c show ?thesis by simp
qed

text \<open>
  Claim C8, amended. When the text of the selected page does not parse, \<^const>\<open>convert\<close>
  returns the empty text in relaxed mode and raises \<^verbatim>\<open>DiagramParsingError\<close> in strict
  mode.
\<close>

theorem convert_unparsable_page:
  assumes "decompress_data lib strict_mode [] input_data = Inr pages"
    and "pages \<noteq> []"
    and "select_index strict_mode diagram_index pages = Inr i"
    and "et_fromstring lib (normalize_xml (pages ! i)) = None"
  shows "convert lib depth strict_mode input_data diagram_index direction diagram_type
         = (if strict_mode then Inl DiagramParsingError else Inr [])"
  using assms by (simp add: convert_def convert_body_def parse_xml_def)

theorem convert_unparsable_page_witness:
  "decompress_data sample_library False [] broken_text = Inr [broken_text]
   \<and> select_index False 0 [broken_text] = Inr 0
   \<and> et_fromstring sample_library (normalize_xml ([broken_text] ! 0)) = None
   \<and> convert sample_library 1000 False broken_text 0 ''TD'' ''flowchart'' = Inr []
   \<and> convert sample_library 1000 True broken_text 0 ''TD'' ''flowchart''
       = Inl DiagramParsingError"
proof -
  have f: "decompress_data sample_library False [] broken_text = Inr [broken_text]" by code_simp
  have t: "decompress_data sample_library True [] broken_text = Inr [broken_text]" by code_simp
  have sf: "select_index False 0 [broken_text] = Inr 0" by (simp add: select_index_def)
  have st: "select_index True 0 [broken_text] = Inr 0" by (simp add: select_index_def)
  have n: "et_fromstring sample_library (normalize_xml ([broken_text] ! 0)) = None" by code_simp
  show ?thesis
    using f sf n
      convert_unparsable_page [OF f _ sf n, of 1000 "''TD''" "''flowchart''"]
      convert_unparsable_page [OF t _ st n, of 1000 "''TD''" "''flowchart''"]
    by simp
qed

subsection \<open>The style parser\<close>

lemma split_on_not_Nil: "split_on sep s \<noteq> []"
  by (induction s) (auto split: list.splits)

lemma join_Cons_head: "join sep ((c # t) # ts) = c # join sep (t # ts)"
  by (cases ts) simp_all

lemma join_split_on: "join [sep] (split_on sep s) = s"
proof (induction s)
  case Nil
  show ?case by simp
next
  case (Cons c cs)
  obtain t ts where ts: "split_on sep cs = t # ts"
    using split_on_not_Nil [of sep cs] by (cases "split_on sep cs") auto
  show ?case
  proof (cases "c = sep")
    case True
    with Cons ts show ?thesis by simp
  next
    case False
    with Cons ts show ?thesis by (simp add: join_Cons_head)
  qed
qed

lemma split_on_no_sep: "t \<in> set (split_on sep s) \<Longrightarrow> sep \<notin> set t"
  by (induction s arbitrary: t) (auto split: list.splits if_splits)

lemma token_split_first:
  "CHR ''='' \<in> set t \<Longrightarrow> t = token_key t @ CHR ''='' # token_value t"
  unfolding token_key_def token_value_def
  by (induction t) auto

lemma token_key_no_eq: "CHR ''='' \<notin> set (token_key t)"
  unfolding token_key_def by (auto dest: set_takeWhileD)

lemma map_of_style_token:
  "map_of (style_token t d) =
     (if t = [] then map_of d else (map_of d)(fst (style_entry t) \<mapsto> snd (style_entry t)))"
  by (auto simp: style_token_def style_entry_def update_conv')

lemma map_add_upd_left: "m(a \<mapsto> b) ++ x = m ++ ([a \<mapsto> b] ++ x)"
  by (rule ext) (simp add: map_add_def split: option.splits)

lemma map_of_fold_style_token:
  "map_of (fold style_token ts d) =
     map_of d ++ map_of (rev (map style_entry (filter (\<lambda>t. t \<noteq> []) ts)))"
proof (induction ts arbitrary: d)
  case Nil
  show ?case by simp
next
  case (Cons t ts)
  let ?rest = "map_of (rev (map style_entry (filter (\<lambda>t. t \<noteq> []) ts)))"
  have step: "map_of (fold style_token (t # ts) d) = map_of (style_token t d) ++ ?rest"
    using Cons [of "style_token t d"] by simp
  show ?case
  proof (cases "t = []")
    case True
    then show ?thesis using step by (simp add: map_of_style_token)
  next
    case False
    obtain a b where ab: "style_entry t = (a, b)" by (cases "style_entry t")
    have "map_of (style_token t d) = (map_of d)(a \<mapsto> b)"
      using False ab by (simp add: map_of_style_token)
    then have "map_of (fold style_token (t # ts) d) = (map_of d)(a \<mapsto> b) ++ ?rest"
      using step by (simp only:)
    also have "\<dots> = map_of d ++ ([a \<mapsto> b] ++ ?rest)"
      by (rule map_add_upd_left)
    also have "[a \<mapsto> b] ++ ?rest =
        map_of (rev (map style_entry (filter (\<lambda>t. t \<noteq> []) (t # ts))))"
      using False ab by simp
    finally show ?thesis .
  qed
qed

lemma distinct_style_token: "distinct (map fst d) \<Longrightarrow> distinct (map fst (style_token t d))"
  by (simp add: style_token_def distinct_update)

lemma distinct_fold_style_token:
  "distinct (map fst d) \<Longrightarrow> distinct (map fst (fold style_token ts d))"
  by (induction ts arbitrary: d) (simp_all add: distinct_style_token)

text \<open>
  Claim C9. \<^const>\<open>parse_style\<close> is a total function. The empty string gives the empty
  map. The tokens are the pieces of the input between the semicolons (joining them with
  \<^verbatim>\<open>;\<close> gives the input back, and no token contains one). A token that contains \<^verbatim>\<open>=\<close> is
  cut at its first \<^verbatim>\<open>=\<close> only: the key has no \<^verbatim>\<open>=\<close> and the value is the whole remainder.
  The result maps, for every non-empty token, the key to that remainder, or the token
  itself to the flag \<^verbatim>\<open>True\<close> when it has no \<^verbatim>\<open>=\<close>; where two tokens have the same key
  the later one counts. Keys are unique.
\<close>

theorem parse_style_tokens:
  "parse_style [] = []
   \<and> join '';'' (split_on (CHR '';'') s) = s
   \<and> (\<forall>t \<in> set (split_on (CHR '';'') s). CHR '';'' \<notin> set t)
   \<and> (\<forall>t. CHR ''='' \<in> set t \<longrightarrow>
          t = token_key t @ CHR ''='' # token_value t \<and> CHR ''='' \<notin> set (token_key t))
   \<and> map_of (parse_style s) =
       map_of (rev (map style_entry (filter (\<lambda>t. t \<noteq> []) (split_on (CHR '';'') s))))
   \<and> distinct (map fst (parse_style s))"
proof -
  have a: "parse_style [] = []" by (simp add: parse_style_def)
  have b: "join '';'' (split_on (CHR '';'') s) = s" by (rule join_split_on)
  have c: "\<forall>t \<in> set (split_on (CHR '';'') s). CHR '';'' \<notin> set t"
    by (blast dest: split_on_no_sep)
  have d: "\<forall>t. CHR ''='' \<in> set t \<longrightarrow>
          t = token_key t @ CHR ''='' # token_value t \<and> CHR ''='' \<notin> set (token_key t)"
    using token_split_first token_key_no_eq by blast
  have e: "map_of (parse_style s) =
       map_of (rev (map style_entry (filter (\<lambda>t. t \<noteq> []) (split_on (CHR '';'') s))))"
  proof (cases "s = []")
    case True
    then show ?thesis by (simp add: parse_style_def)
  next
    case False
    then show ?thesis by (simp add: parse_style_def map_of_fold_style_token)
  qed
  have f: "distinct (map fst (parse_style s))"
    by (simp add: parse_style_def distinct_fold_style_token)
  from a b c d e f show ?thesis by blast
qed

theorem parse_style_tokens_witness:
  "split_on (CHR '';'') ''a=b=c;;dashed;x=1;x'' = [''a=b=c'', [], ''dashed'', ''x=1'', ''x'']
   \<and> CHR '';'' \<notin> set ''a=b=c''
   \<and> CHR ''='' \<in> set ''a=b=c''
   \<and> ''a=b=c'' = token_key ''a=b=c'' @ CHR ''='' # token_value ''a=b=c''
   \<and> token_key ''a=b=c'' = ''a'' \<and> token_value ''a=b=c'' = ''b=c''
   \<and> map_of (parse_style ''a=b=c;;dashed;x=1;x'') ''a'' = Some (SStr ''b=c'')
   \<and> map_of (parse_style ''a=b=c;;dashed;x=1;x'') ''dashed'' = Some SFlag
   \<and> map_of (parse_style ''a=b=c;;dashed;x=1;x'') ''x'' = Some SFlag
   \<and> map_of (parse_style ''a=b=c;;dashed;x=1;x'') [] = None"
  using parse_style_tokens [of "''a=b=c;;dashed;x=1;x''"]
  by (simp add: style_entry_def token_key_def token_value_def)

end
